theory Spec2Isabelle
  imports Main "HOL-Library.Word"
begin

section \<open>Values of the application\<close>

text \<open>
  The application is the React component \<open>App\<close> of \<open>src/App.jsx\<close>. Its strings are
  JavaScript strings, sequences of UTF-16 code units. \<open>String.prototype.trim\<close> removes
  the ECMAScript \<open>WhiteSpace\<close> and \<open>LineTerminator\<close> code units from both ends.
\<close>

type_synonym js_string = "16 word list"

definition is_white_space :: "16 word \<Rightarrow> bool" where
  "is_white_space c \<longleftrightarrow>
     c \<in> set [0x9, 0xA, 0xB, 0xC, 0xD, 0x20, 0xA0, 0x1680, 0x2028, 0x2029,
               0x202F, 0x205F, 0x3000, 0xFEFF]
     \<or> (0x2000 \<le> c \<and> c \<le> 0x200A)"

definition trim :: "js_string \<Rightarrow> js_string" where
  "trim s = rev (dropWhile is_white_space (rev (dropWhile is_white_space s)))"

text \<open>An ASCII literal as a JavaScript string, for concrete inputs.\<close>

definition js_str :: "string \<Rightarrow> js_string" where
  "js_str s = map (\<lambda>c. of_nat (of_char c)) s"

text \<open>
  A row of the \<open>tasks\<close> table as the component reads it: \<open>id\<close> (here \<open>task_id\<close>, since
  \<open>id\<close> is the identity function of HOL), \<open>title\<close>, \<open>user_id\<close>, \<open>is_completed\<close> and
  \<open>created_at\<close>. The component only compares identifiers with \<open>===\<close> and never looks
  into \<open>created_at\<close>; identifiers and timestamps are natural numbers here.
\<close>

record task =
  task_id :: nat
  title :: js_string
  user_id :: js_string
  is_completed :: bool
  created_at :: nat

text \<open>
  The session handed over by the authentication provider. The component reads it only
  through \<open>session?.user?.id\<close>, which is \<open>undefined\<close> when the session or its user is
  missing, and tests the result for truthiness: an empty string counts as absent.
  A session is a JavaScript object; \<open>session_ref\<close> is its identity, and \<open>Object.is\<close>,
  by which React compares a new state with the stored one, compares identities
  (\<open>null\<close> is only \<open>null\<close>).
\<close>

record auth_user =
  uid :: js_string
  user_email :: js_string

record auth_session =
  session_ref :: nat
  user :: "auth_user option"

definition object_is :: "auth_session option \<Rightarrow> auth_session option \<Rightarrow> bool" where
  "object_is a b =
     (case a of
        None \<Rightarrow> (case b of None \<Rightarrow> True | Some y \<Rightarrow> False)
      | Some x \<Rightarrow> (case b of None \<Rightarrow> False | Some y \<Rightarrow> session_ref x = session_ref y))"

definition session_user_id :: "auth_session option \<Rightarrow> js_string option" where
  "session_user_id s =
     (case s of
        None \<Rightarrow> None
      | Some ss \<Rightarrow> (case user ss of None \<Rightarrow> None | Some u \<Rightarrow> Some (uid u)))"

definition truthy :: "js_string option \<Rightarrow> bool" where
  "truthy v = (case v of None \<Rightarrow> False | Some s \<Rightarrow> s \<noteq> [])"

section \<open>The backend boundary\<close>

text \<open>
  Every call to the backend is awaited and answers with an object \<open>{ data, error }\<close>;
  \<open>error\<close> is \<open>null\<close> on success, and \<open>data\<close> may be \<open>null\<close>. A request records what
  the component asks for:
  \<^item> \<open>SelectTasks u\<close> is \<open>from('tasks').select('*').eq('user_id', u).order('created_at',
    { ascending: false })\<close>;
  \<^item> \<open>InsertTask t u\<close> is \<open>from('tasks').insert([{ title: t, user_id: u }]).select().single()\<close>;
  \<^item> \<open>UpdateTask i v\<close> is \<open>from('tasks').update({ is_completed: v }).eq('id', i)\<close>;
  \<^item> \<open>DeleteTask i\<close> is \<open>from('tasks').delete().eq('id', i)\<close>;
  \<^item> the others are the calls on \<open>supabase.auth\<close>.
\<close>

type_synonym backend_error = string

record 'a response =
  data :: "'a option"
  error :: "backend_error option"

datatype provider = Google | Facebook

datatype request =
    SelectTasks js_string
  | InsertTask js_string js_string
  | UpdateTask nat bool
  | DeleteTask nat
  | SignInWithOtp js_string
  | SignInWithOAuth provider
  | SignOut

text \<open>
  What an asynchronous function still has to do once its \<open>await\<close> returns, with the
  variables its closure keeps: \<open>toggleTask\<close> keeps \<open>id\<close> and \<open>isCompleted\<close>,
  \<open>deleteTask\<close> keeps \<open>id\<close>, the others keep nothing they use afterwards.
\<close>

datatype pending =
    FetchTasksK
  | AddTaskK
  | ToggleTaskK nat bool
  | DeleteTaskK nat
  | SignInWithEmailK
  | SignOutK
  | SignInWithOAuthK

datatype reply =
    Rows "task list response"
  | Row "task response"
  | Ack "unit response"

section \<open>The component's state\<close>

text \<open>
  The five \<open>useState\<close> cells of \<open>App\<close>, the lines written with \<open>console.error\<close>
  (label and error), and the requests that were sent and are not answered yet, oldest
  first, each with the continuation that waits for the answer.
\<close>

record app =
  session :: "auth_session option"
  email :: js_string
  otpSent :: bool
  tasks :: "task list"
  newTask :: js_string
  console :: "(string \<times> backend_error) list"
  inflight :: "(request \<times> pending) list"

definition init :: app where
  "init = \<lparr> session = None, email = [], otpSent = False, tasks = [], newTask = [],
            console = [], inflight = [] \<rparr>"

definition send :: "request \<Rightarrow> pending \<Rightarrow> app \<Rightarrow> app" where
  "send q k st = st\<lparr> inflight := inflight st @ [(q, k)] \<rparr>"

definition console_error :: "string \<Rightarrow> backend_error \<Rightarrow> app \<Rightarrow> app" where
  "console_error label e st = st\<lparr> console := console st @ [(label, e)] \<rparr>"

section \<open>CRUD actions\<close>

text \<open>
  Each asynchronous function is its part before the \<open>await\<close>, which sends one request
  or returns early, and its part after it (\<open>_resume\<close>), which receives the answer. The
  state updates \<open>setTasks((prev) => ...)\<close> read the list that is current when the
  answer arrives.
\<close>

definition fetchTasks :: "js_string \<Rightarrow> app \<Rightarrow> app" where
  "fetchTasks userId st = send (SelectTasks userId) FetchTasksK st"

definition fetchTasks_resume :: "task list response \<Rightarrow> app \<Rightarrow> app" where
  "fetchTasks_resume r st =
     (case error r of
        Some e \<Rightarrow> console_error ''Fetch tasks error:'' e st
      | None \<Rightarrow> st\<lparr> tasks := (case data r of None \<Rightarrow> [] | Some d \<Rightarrow> d) \<rparr>)"

definition addTask :: "app \<Rightarrow> app" where
  "addTask st =
     (if trim (newTask st) = [] then st
      else if \<not> truthy (session_user_id (session st)) then st
      else (case session_user_id (session st) of
              None \<Rightarrow> st
            | Some userId \<Rightarrow> send (InsertTask (trim (newTask st)) userId) AddTaskK st))"

definition addTask_resume :: "task response \<Rightarrow> app \<Rightarrow> app" where
  "addTask_resume r st =
     (case error r of
        Some e \<Rightarrow> console_error ''Add task error:'' e st
      | None \<Rightarrow>
          (case data r of
             Some d \<Rightarrow> st\<lparr> tasks := d # tasks st, newTask := [] \<rparr>
           | None \<Rightarrow> st))"

definition toggleTask :: "nat \<Rightarrow> bool \<Rightarrow> app \<Rightarrow> app" where
  "toggleTask i isCompleted st =
     send (UpdateTask i (\<not> isCompleted)) (ToggleTaskK i isCompleted) st"

definition toggleTask_resume :: "nat \<Rightarrow> bool \<Rightarrow> unit response \<Rightarrow> app \<Rightarrow> app" where
  "toggleTask_resume i isCompleted r st =
     (case error r of
        Some e \<Rightarrow> console_error ''Toggle task error:'' e st
      | None \<Rightarrow>
          st\<lparr> tasks :=
                map (\<lambda>t. if task_id t = i then t\<lparr> is_completed := \<not> isCompleted \<rparr> else t)
                  (tasks st) \<rparr>)"

definition deleteTask :: "nat \<Rightarrow> app \<Rightarrow> app" where
  "deleteTask i st = send (DeleteTask i) (DeleteTaskK i) st"

definition deleteTask_resume :: "nat \<Rightarrow> unit response \<Rightarrow> app \<Rightarrow> app" where
  "deleteTask_resume i r st =
     (case error r of
        Some e \<Rightarrow> console_error ''Delete task error:'' e st
      | None \<Rightarrow> st\<lparr> tasks := filter (\<lambda>t. task_id t \<noteq> i) (tasks st) \<rparr>)"

section \<open>Auth actions and the auth lifecycle\<close>

definition signInWithGoogle :: "app \<Rightarrow> app" where
  "signInWithGoogle st = send (SignInWithOAuth Google) SignInWithOAuthK st"

definition signInWithFacebook :: "app \<Rightarrow> app" where
  "signInWithFacebook st = send (SignInWithOAuth Facebook) SignInWithOAuthK st"

definition signInWithEmail :: "app \<Rightarrow> app" where
  "signInWithEmail st = send (SignInWithOtp (email st)) SignInWithEmailK st"

definition signInWithEmail_resume :: "unit response \<Rightarrow> app \<Rightarrow> app" where
  "signInWithEmail_resume r st =
     (case error r of
        Some e \<Rightarrow> console_error ''Error sending magic link:'' e st
      | None \<Rightarrow> st\<lparr> otpSent := True \<rparr>)"

definition signOut :: "app \<Rightarrow> app" where
  "signOut st = send SignOut SignOutK st"

definition signOut_resume :: "unit response \<Rightarrow> app \<Rightarrow> app" where
  "signOut_resume r st =
     (case error r of
        Some e \<Rightarrow> console_error ''Sign-out error:'' e st
      | None \<Rightarrow> st)"

text \<open>
  The effect with dependency \<open>[session]\<close>: it runs after a render in which \<open>session\<close>
  is another value than before.
\<close>

definition session_effect :: "app \<Rightarrow> app" where
  "session_effect st =
     (if truthy (session_user_id (session st))
      then (case session_user_id (session st) of
              None \<Rightarrow> st\<lparr> tasks := [] \<rparr>
            | Some userId \<Rightarrow> fetchTasks userId st)
      else st\<lparr> tasks := [] \<rparr>)"

text \<open>
  \<open>setSession\<close> as both the \<open>getSession\<close> promise and the \<open>onAuthStateChange\<close> listener
  call it. When the value is \<open>Object.is\<close>-equal to the stored one, \<open>useState\<close> bails
  out: nothing is rendered again and the effect does not run. Otherwise the value is
  stored and, \<open>session\<close> being another value than before, the effect runs.
\<close>

definition setSession :: "auth_session option \<Rightarrow> app \<Rightarrow> app" where
  "setSession s st =
     (if object_is s (session st) then st
      else session_effect (st\<lparr> session := s \<rparr>))"

section \<open>Events\<close>

text \<open>
  One event is one turn of the event loop: the provider announces a session, the user
  types or presses a control that the current view renders, or the backend answers
  the \<open>k\<close>-th request in flight. \<open>step\<close> is \<open>None\<close> when the event cannot happen
  in the state: the control is not rendered or is disabled, or there is no such request,
  or the answer has the wrong shape for it.
\<close>

datatype event =
    AuthStateChange "auth_session option"
  | TypeEmail js_string
  | TypeNewTask js_string
  | ClickGoogle
  | ClickFacebook
  | ClickEmailLink
  | ClickSignOut
  | ClickAdd
  | ClickToggle nat
  | ClickDelete nat
  | Resolve nat reply

fun resume :: "pending \<Rightarrow> reply \<Rightarrow> app \<Rightarrow> app option" where
  "resume FetchTasksK (Rows r) st = Some (fetchTasks_resume r st)"
| "resume AddTaskK (Row r) st = Some (addTask_resume r st)"
| "resume (ToggleTaskK i b) (Ack r) st = Some (toggleTask_resume i b r st)"
| "resume (DeleteTaskK i) (Ack r) st = Some (deleteTask_resume i r st)"
| "resume SignInWithEmailK (Ack r) st = Some (signInWithEmail_resume r st)"
| "resume SignOutK (Ack r) st = Some (signOut_resume r st)"
| "resume SignInWithOAuthK (Ack r) st = Some st"
| "resume _ _ _ = None"

definition take_inflight :: "nat \<Rightarrow> app \<Rightarrow> app" where
  "take_inflight k st = st\<lparr> inflight := take k (inflight st) @ drop (Suc k) (inflight st) \<rparr>"

fun step :: "event \<Rightarrow> app \<Rightarrow> app option" where
  "step (AuthStateChange s) st = Some (setSession s st)"
| "step (TypeEmail s) st =
     (if session st = None then Some (st\<lparr> email := s \<rparr>) else None)"
| "step (TypeNewTask s) st =
     (if session st \<noteq> None then Some (st\<lparr> newTask := s \<rparr>) else None)"
| "step ClickGoogle st =
     (if session st = None then Some (signInWithGoogle st) else None)"
| "step ClickFacebook st =
     (if session st = None then Some (signInWithFacebook st) else None)"
| "step ClickEmailLink st =
     (if session st = None then Some (signInWithEmail st) else None)"
| "step ClickSignOut st =
     (if session st \<noteq> None then Some (signOut st) else None)"
| "step ClickAdd st =
     (if session st \<noteq> None \<and> trim (newTask st) \<noteq> [] then Some (addTask st) else None)"
| "step (ClickToggle n) st =
     (if session st \<noteq> None \<and> n < length (tasks st)
      then Some (toggleTask (task_id (tasks st ! n)) (is_completed (tasks st ! n)) st)
      else None)"
| "step (ClickDelete n) st =
     (if session st \<noteq> None \<and> n < length (tasks st)
      then Some (deleteTask (task_id (tasks st ! n)) st)
      else None)"
| "step (Resolve k a) st =
     (if k < length (inflight st)
      then resume (snd (inflight st ! k)) a (take_inflight k st)
      else None)"

fun run :: "event list \<Rightarrow> app \<Rightarrow> app option" where
  "run [] st = Some st"
| "run (e # es) st = (case step e st of None \<Rightarrow> None | Some st' \<Rightarrow> run es st')"

text \<open>
  The continuations that write rows into the task list whatever it holds, and the
  events by which the provider announces a session of a user.
\<close>

fun writes_rows :: "pending \<Rightarrow> bool" where
  "writes_rows FetchTasksK = True"
| "writes_rows AddTaskK = True"
| "writes_rows _ = False"

definition no_rows_awaited :: "app \<Rightarrow> bool" where
  "no_rows_awaited st = list_all (\<lambda>qk. \<not> writes_rows (snd qk)) (inflight st)"

fun announces_session :: "event \<Rightarrow> bool" where
  "announces_session (AuthStateChange (Some s)) = True"
| "announces_session _ = False"

section \<open>The table store\<close>

text \<open>
  Modelled from the spec: the execution of a query by the hosted table store, which is
  reached through \<open>./supabaseClient\<close> and is not among the sources. The spec gives the
  read as \<open>select * where user_id = ? order by created_at desc\<close>, answered with
  \<open>{ data }\<close> on success: the rows of the table owned by the user, newest first.
\<close>

definition store_select :: "task list \<Rightarrow> js_string \<Rightarrow> task list response" where
  "store_select table u =
     \<lparr> data = Some (rev (sort_key created_at (filter (\<lambda>t. user_id t = u) table))),
       error = None \<rparr>"

section \<open>Example data\<close>

definition alice :: auth_session where
  "alice = \<lparr> session_ref = 1, user = Some \<lparr> uid = js_str ''user-a'', user_email = js_str ''a@x.com'' \<rparr> \<rparr>"

definition bob :: auth_session where
  "bob = \<lparr> session_ref = 2, user = Some \<lparr> uid = js_str ''user-b'', user_email = js_str ''b@x.com'' \<rparr> \<rparr>"

definition alice_task :: task where
  "alice_task = \<lparr> task_id = 1, title = js_str ''buy milk'', user_id = js_str ''user-a'',
                  is_completed = False, created_at = 100 \<rparr>"

definition alice_task2 :: task where
  "alice_task2 = \<lparr> task_id = 3, title = js_str ''pitch tent'', user_id = js_str ''user-a'',
                   is_completed = True, created_at = 300 \<rparr>"

definition bob_task :: task where
  "bob_task = \<lparr> task_id = 2, title = js_str ''pack stove'', user_id = js_str ''user-b'',
                is_completed = False, created_at = 200 \<rparr>"

definition ok :: "'a response" where
  "ok = \<lparr> data = None, error = None \<rparr>"

definition failed :: "'a response" where
  "failed = \<lparr> data = None, error = Some ''network'' \<rparr>"

section \<open>Basic facts\<close>

lemma trim_Nil_iff: "trim s = [] \<longleftrightarrow> (\<forall>c\<in>set s. is_white_space c)"
proof
  assume "trim s = []"
  then have "dropWhile is_white_space (rev (dropWhile is_white_space s)) = []"
    by (simp add: trim_def)
  then have inner: "\<forall>c\<in>set (dropWhile is_white_space s). is_white_space c"
    by (simp add: dropWhile_eq_Nil_conv)
  show "\<forall>c\<in>set s. is_white_space c"
  proof (rule ccontr)
    assume "\<not> (\<forall>c\<in>set s. is_white_space c)"
    then have "dropWhile is_white_space s \<noteq> []"
      by (simp add: dropWhile_eq_Nil_conv)
    then have "\<not> is_white_space (hd (dropWhile is_white_space s))"
      by (rule hd_dropWhile)
    moreover have "hd (dropWhile is_white_space s) \<in> set (dropWhile is_white_space s)"
      using \<open>dropWhile is_white_space s \<noteq> []\<close> by simp
    ultimately show False using inner by blast
  qed
next
  assume "\<forall>c\<in>set s. is_white_space c"
  then have d: "dropWhile is_white_space s = []"
    by (simp add: dropWhile_eq_Nil_conv)
  show "trim s = []"
    unfolding trim_def d by simp
qed

lemma distinct_ids_other:
  assumes "distinct (map task_id xs)" and "n < length xs" and "m < length xs" and "m \<noteq> n"
  shows "task_id (xs ! m) \<noteq> task_id (xs ! n)"
proof -
  have "(map task_id xs ! m = map task_id xs ! n) = (m = n)"
    using assms by (intro nth_eq_iff_index_eq) simp_all
  then show ?thesis using assms by simp
qed

lemma map_flag_distinct:
  assumes "distinct (map task_id xs)" and "n < length xs" and "task_id (xs ! n) = i"
  shows "map (\<lambda>t. if task_id t = i then f t else t) xs = xs[n := f (xs ! n)]"
proof (rule nth_equalityI)
  show "length (map (\<lambda>t. if task_id t = i then f t else t) xs) = length (xs[n := f (xs ! n)])"
    by simp
next
  fix m
  assume "m < length (map (\<lambda>t. if task_id t = i then f t else t) xs)"
  then have m: "m < length xs" by simp
  show "map (\<lambda>t. if task_id t = i then f t else t) xs ! m = xs[n := f (xs ! n)] ! m"
  proof (cases "m = n")
    case True
    then show ?thesis using assms by simp
  next
    case False
    then have "task_id (xs ! m) \<noteq> i"
      using distinct_ids_other [OF assms(1) assms(2) m] assms(3) by simp
    then show ?thesis using m False by simp
  qed
qed

lemma filter_id_distinct:
  assumes "distinct (map task_id xs)" and "n < length xs" and "task_id (xs ! n) = i"
  shows "filter (\<lambda>t. task_id t \<noteq> i) xs = take n xs @ drop (Suc n) xs"
  using assms
proof (induction xs arbitrary: n)
  case Nil
  then show ?case by simp
next
  case (Cons x xs)
  show ?case
  proof (cases n)
    case 0
    then have "task_id x = i" using Cons.prems by simp
    moreover have "task_id x \<notin> task_id ` set xs"
      using Cons.prems(1) by simp
    then have "\<forall>t\<in>set xs. task_id t \<noteq> i"
      using \<open>task_id x = i\<close> by blast
    ultimately show ?thesis using 0 by simp
  next
    case (Suc k)
    then have k: "k < length xs" "task_id (xs ! k) = i"
      using Cons.prems by simp_all
    then have "xs ! k \<in> set xs" by simp
    then have "task_id x \<noteq> i"
      using Cons.prems(1) k(2) by force
    moreover have "filter (\<lambda>t. task_id t \<noteq> i) xs = take k xs @ drop (Suc k) xs"
      using Cons.IH [of k] Cons.prems(1) k by simp
    ultimately show ?thesis using Suc by simp
  qed
qed

lemma no_rows_awaited_take:
  assumes "no_rows_awaited st"
  shows "no_rows_awaited (take_inflight k st)"
proof -
  have "set (take k (inflight st) @ drop (Suc k) (inflight st)) \<subseteq> set (inflight st)"
    using set_take_subset [of k "inflight st"] set_drop_subset [of "Suc k" "inflight st"]
    by auto
  then show ?thesis
    using assms by (auto simp: no_rows_awaited_def take_inflight_def list_all_iff)
qed

lemma resume_signed_out:
  assumes "session st = None" and "tasks st = []" and "no_rows_awaited st"
    and "\<not> writes_rows p" and "resume p a st = Some st'"
  shows "session st' = None \<and> tasks st' = [] \<and> no_rows_awaited st'"
  using assms
  by (cases p; cases a)
     (auto simp: toggleTask_resume_def deleteTask_resume_def signInWithEmail_resume_def
        signOut_resume_def console_error_def no_rows_awaited_def split: option.splits)

lemma step_signed_out:
  assumes "session st = None" and "tasks st = []" and "no_rows_awaited st"
    and "\<not> announces_session e" and "step e st = Some st'"
  shows "session st' = None \<and> tasks st' = [] \<and> no_rows_awaited st'"
proof (cases e)
  case (AuthStateChange s)
  then have "s = None" using assms(4) by (cases s) simp_all
  then show ?thesis using assms AuthStateChange by (simp add: setSession_def object_is_def)
next
  case (Resolve k a)
  then have k: "k < length (inflight st)"
    and r: "resume (snd (inflight st ! k)) a (take_inflight k st) = Some st'"
    using assms(5) by (simp_all split: if_splits)
  have "inflight st ! k \<in> set (inflight st)" using k by simp
  then have p: "\<not> writes_rows (snd (inflight st ! k))"
    using assms(3) by (simp add: no_rows_awaited_def list_all_iff)
  have "session (take_inflight k st) = None" "tasks (take_inflight k st) = []"
    using assms(1,2) by (simp_all add: take_inflight_def)
  then show ?thesis
    using resume_signed_out [OF _ _ no_rows_awaited_take [OF assms(3)] p r] by simp
qed (use assms in \<open>auto simp: signInWithGoogle_def signInWithFacebook_def signInWithEmail_def
       send_def no_rows_awaited_def split: if_splits\<close>)

lemma run_signed_out:
  assumes "run es st = Some st'" and "session st = None" and "tasks st = []"
    and "no_rows_awaited st" and "list_all (\<lambda>e. \<not> announces_session e) es"
  shows "session st' = None \<and> tasks st' = [] \<and> no_rows_awaited st'"
  using assms
proof (induction es arbitrary: st)
  case Nil
  then show ?case by simp
next
  case (Cons e es)
  from Cons.prems(1) obtain st1 where s1: "step e st = Some st1" and r1: "run es st1 = Some st'"
    by (auto split: option.splits)
  have "\<not> announces_session e" using Cons.prems(5) by simp
  from step_signed_out [OF Cons.prems(2,3,4) this s1]
  have "session st1 = None" "tasks st1 = []" "no_rows_awaited st1" by simp_all
  with Cons.IH [OF r1] Cons.prems(5) show ?case by simp
qed

lemma run_single: "run [e] st = step e st"
  by (simp split: option.splits)

lemma take_inflight_send: "take_inflight (length (inflight st)) (send q k st) = st"
  by (simp add: take_inflight_def send_def)

lemma resolve_sent:
  "run [Resolve (length (inflight st)) a] (send q k st) = resume k a st"
proof -
  have "length (inflight st) < length (inflight (send q k st))"
    and "snd (inflight (send q k st) ! length (inflight st)) = k"
    by (simp_all add: send_def)
  then have "step (Resolve (length (inflight st)) a) (send q k st) = resume k a st"
    by (simp add: take_inflight_send)
  then show ?thesis
    by (simp only: run_single)
qed

lemmas app_defs =
  send_def console_error_def fetchTasks_def fetchTasks_resume_def addTask_def
  addTask_resume_def toggleTask_def toggleTask_resume_def deleteTask_def
  deleteTask_resume_def signInWithEmail_def signInWithEmail_resume_def signOut_def
  signOut_resume_def signInWithGoogle_def signInWithFacebook_def session_effect_def
  setSession_def object_is_def take_inflight_def session_user_id_def truthy_def

lemmas example_defs =
  init_def alice_def bob_def alice_task_def alice_task2_def bob_task_def ok_def
  failed_def js_str_def trim_def is_white_space_def

section \<open>Adding a task\<close>

text \<open>
  Claim C5. When the pending title is empty or consists of white space only, so that
  it is empty after trimming, \<open>addTask\<close> returns at once: no insert request is sent and
  the task list, with all the rest of the state, is as before.
\<close>

theorem addTask_blank_title_noop:
  assumes "\<forall>c\<in>set (newTask st). is_white_space c"
  shows "trim (newTask st) = [] \<and> addTask st = st"
  using assms by (simp add: trim_Nil_iff addTask_def)

theorem addTask_blank_title_noop_witness:
  "list_all is_white_space
     (newTask (init\<lparr> session := Some alice, tasks := [alice_task], newTask := js_str ''   '' \<rparr>))
   \<and> addTask (init\<lparr> session := Some alice, tasks := [alice_task], newTask := js_str ''   '' \<rparr>)
       = init\<lparr> session := Some alice, tasks := [alice_task], newTask := js_str ''   '' \<rparr>"
proof -
  let ?st = "init\<lparr> session := Some alice, tasks := [alice_task], newTask := js_str ''   '' \<rparr>"
  have h: "\<forall>c\<in>set (newTask ?st). is_white_space c"
    by (simp add: init_def js_str_def is_white_space_def)
  from addTask_blank_title_noop [OF h] h show ?thesis
    by (simp add: list_all_iff)
qed

text \<open>
  Claim C10. Whatever the pending title is, when \<open>session?.user?.id\<close> is missing or
  empty \<open>addTask\<close> returns before the store call: no request is sent, and the task list,
  the pending title and all the rest of the state are as before.
\<close>

theorem addTask_unauthenticated_noop:
  assumes "\<not> truthy (session_user_id (session st))"
  shows "addTask st = st"
  using assms by (simp add: addTask_def)

theorem addTask_unauthenticated_noop_witness:
  "\<not> truthy (session_user_id (session (init\<lparr> newTask := js_str ''buy milk'' \<rparr>)))
   \<and> addTask (init\<lparr> newTask := js_str ''buy milk'' \<rparr>) = init\<lparr> newTask := js_str ''buy milk'' \<rparr>"
proof -
  have h: "\<not> truthy (session_user_id (session (init\<lparr> newTask := js_str ''buy milk'' \<rparr>)))"
    by (simp add: init_def truthy_def session_user_id_def)
  from addTask_unauthenticated_noop [OF h] h show ?thesis by blast
qed

text \<open>
  Claim C6. With a title that is not empty after trimming and a session that carries a
  user identifier, \<open>addTask\<close> sends one insert of the trimmed title for that user.
  When the answer is a success with a row (\<open>error\<close> is \<open>null\<close>, \<open>data\<close> is the created
  row), the list becomes that row followed by the list as it was, in the same order,
  and the pending title is cleared; this holds for whatever list \<open>st'\<close> is current
  when the answer arrives.
\<close>

theorem addTask_success_prepends:
  assumes "trim (newTask st) \<noteq> []"
    and "session_user_id (session st) = Some u" and "u \<noteq> []"
    and "error r = None" and "data r = Some d"
  shows "addTask st = send (InsertTask (trim (newTask st)) u) AddTaskK st
       \<and> tasks (addTask st) = tasks st
       \<and> addTask_resume r st' = st'\<lparr> tasks := d # tasks st', newTask := [] \<rparr>
       \<and> tasks (addTask_resume r (addTask st)) = d # tasks st"
  using assms by (simp add: addTask_def addTask_resume_def truthy_def send_def)

theorem addTask_success_prepends_witness:
  "trim (newTask (init\<lparr> session := Some alice, tasks := [alice_task], newTask := js_str '' pitch tent '' \<rparr>)) \<noteq> []
   \<and> addTask (init\<lparr> session := Some alice, tasks := [alice_task], newTask := js_str '' pitch tent '' \<rparr>)
       = send (InsertTask (js_str ''pitch tent'') (js_str ''user-a'')) AddTaskK
           (init\<lparr> session := Some alice, tasks := [alice_task], newTask := js_str '' pitch tent '' \<rparr>)
   \<and> tasks (addTask_resume \<lparr> data = Some alice_task2, error = None \<rparr>
        (addTask (init\<lparr> session := Some alice, tasks := [alice_task], newTask := js_str '' pitch tent '' \<rparr>)))
       = [alice_task2, alice_task]"
proof -
  let ?st = "init\<lparr> session := Some alice, tasks := [alice_task], newTask := js_str '' pitch tent '' \<rparr>"
  let ?r = "\<lparr> data = Some alice_task2, error = None \<rparr>"
  have t: "trim (newTask ?st) = js_str ''pitch tent''"
    by (simp add: init_def js_str_def trim_def is_white_space_def)
  have h1: "trim (newTask ?st) \<noteq> []"
    unfolding t by (simp add: js_str_def)
  have h2: "session_user_id (session ?st) = Some (js_str ''user-a'')"
    by (simp add: init_def alice_def session_user_id_def)
  have h3: "js_str ''user-a'' \<noteq> []"
    by (simp add: js_str_def)
  have h4: "error ?r = None" and h5: "data ?r = Some alice_task2"
    by simp_all
  note main = addTask_success_prepends [OF h1 h2 h3 h4 h5, of ?st]
  from main have "addTask ?st = send (InsertTask (trim (newTask ?st)) (js_str ''user-a'')) AddTaskK ?st"
    by blast
  then have a: "addTask ?st = send (InsertTask (js_str ''pitch tent'') (js_str ''user-a'')) AddTaskK ?st"
    unfolding t .
  from main have "tasks (addTask_resume ?r (addTask ?st)) = alice_task2 # tasks ?st"
    by blast
  moreover have "tasks ?st = [alice_task]"
    by (simp add: init_def)
  ultimately have b: "tasks (addTask_resume ?r (addTask ?st)) = [alice_task2, alice_task]"
    by simp
  from h1 a b show ?thesis by blast
qed

section \<open>Failures of the backend\<close>

text \<open>
  Claim C3. When the backend answers \<open>fetchTasks\<close>, \<open>addTask\<close>, \<open>toggleTask\<close> or
  \<open>deleteTask\<close> with an error, the continuation writes one line with \<open>console.error\<close>
  and changes nothing else, so the task list is the one from before the call. The
  continuations are total functions on the state: the source has no \<open>throw\<close>, and an
  error of the backend is the \<open>error\<close> field of its answer, so nothing reaches the
  caller.
\<close>

theorem backend_error_leaves_tasks:
  assumes "error rl = Some e" and "error ra = Some e" and "error ru = Some e"
  shows "fetchTasks_resume rl st = st\<lparr> console := console st @ [(''Fetch tasks error:'', e)] \<rparr>
       \<and> addTask_resume ra st = st\<lparr> console := console st @ [(''Add task error:'', e)] \<rparr>
       \<and> toggleTask_resume i b ru st = st\<lparr> console := console st @ [(''Toggle task error:'', e)] \<rparr>
       \<and> deleteTask_resume i ru st = st\<lparr> console := console st @ [(''Delete task error:'', e)] \<rparr>
       \<and> tasks (fetchTasks_resume rl (fetchTasks u st)) = tasks st
       \<and> tasks (addTask_resume ra (addTask st)) = tasks st
       \<and> tasks (toggleTask_resume i b ru (toggleTask i b st)) = tasks st
       \<and> tasks (deleteTask_resume i ru (deleteTask i st)) = tasks st
       \<and> resume FetchTasksK (Rows rl) st = Some (console_error ''Fetch tasks error:'' e st)
       \<and> resume AddTaskK (Row ra) st = Some (console_error ''Add task error:'' e st)
       \<and> resume (ToggleTaskK i b) (Ack ru) st = Some (console_error ''Toggle task error:'' e st)
       \<and> resume (DeleteTaskK i) (Ack ru) st = Some (console_error ''Delete task error:'' e st)"
  using assms
  by (simp add: fetchTasks_resume_def addTask_resume_def toggleTask_resume_def
      deleteTask_resume_def console_error_def fetchTasks_def addTask_def toggleTask_def
      deleteTask_def send_def split: option.splits)

theorem backend_error_leaves_tasks_witness:
  "error (failed :: task list response) = Some ''network''
   \<and> fetchTasks_resume failed (init\<lparr> session := Some alice, tasks := [alice_task] \<rparr>)
       = init\<lparr> session := Some alice, tasks := [alice_task],
               console := [(''Fetch tasks error:'', ''network'')] \<rparr>
   \<and> tasks (addTask_resume failed
        (addTask (init\<lparr> session := Some alice, tasks := [alice_task] \<rparr>))) = [alice_task]
   \<and> tasks (toggleTask_resume 1 False failed
        (toggleTask 1 False (init\<lparr> session := Some alice, tasks := [alice_task] \<rparr>))) = [alice_task]
   \<and> tasks (deleteTask_resume 1 failed
        (deleteTask 1 (init\<lparr> session := Some alice, tasks := [alice_task] \<rparr>))) = [alice_task]"
proof -
  let ?st = "init\<lparr> session := Some alice, tasks := [alice_task] \<rparr>"
  have h1: "error (failed :: task list response) = Some ''network''"
    and h2: "error (failed :: task response) = Some ''network''"
    and h3: "error (failed :: unit response) = Some ''network''"
    by (simp_all add: failed_def)
  have t: "tasks ?st = [alice_task]"
    by (simp add: init_def)
  from backend_error_leaves_tasks [OF h1 h2 h3, of ?st 1 False "[]"] h1 t show ?thesis
    by (simp add: init_def)
qed

section \<open>Toggling and deleting\<close>

text \<open>
  Claim C7. \<open>toggleTask(id, b)\<close> asks the store to set the flag of \<open>id\<close> to \<open>\<not> b\<close>, and
  \<open>deleteTask(id)\<close> asks it to remove \<open>id\<close>. When the answer is a success, the toggle
  has set the completion flag to \<open>\<not> b\<close> on the records whose identifier is \<open>id\<close>, at
  their positions, and has left their other fields, every other record and all the
  rest of the state as they were; the deletion has removed the records whose identifier
  is \<open>id\<close> and kept the others in order. Identifiers are keys of the table: when they
  are distinct in the list, the button of the item at position \<open>n\<close> flips, respectively
  removes, that position and nothing else.
\<close>

theorem toggle_delete_frame:
  assumes "error r = None"
  shows "toggleTask i b st = send (UpdateTask i (\<not> b)) (ToggleTaskK i b) st
       \<and> run [Resolve (length (inflight st)) (Ack r)] (toggleTask i b st)
           = Some (st\<lparr> tasks :=
                     map (\<lambda>t. if task_id t = i then t\<lparr> is_completed := \<not> b \<rparr> else t)
                       (tasks st) \<rparr>)
       \<and> deleteTask i st = send (DeleteTask i) (DeleteTaskK i) st
       \<and> run [Resolve (length (inflight st)) (Ack r)] (deleteTask i st)
           = Some (st\<lparr> tasks := filter (\<lambda>t. task_id t \<noteq> i) (tasks st) \<rparr>)
       \<and> length (tasks (toggleTask_resume i b r st)) = length (tasks st)
       \<and> (\<forall>n<length (tasks st).
            tasks (toggleTask_resume i b r st) ! n =
              (if task_id (tasks st ! n) = i then (tasks st ! n)\<lparr> is_completed := \<not> b \<rparr>
               else tasks st ! n))
       \<and> toggleTask_resume i b r st = st\<lparr> tasks := tasks (toggleTask_resume i b r st) \<rparr>
       \<and> tasks (deleteTask_resume i r st) = filter (\<lambda>t. task_id t \<noteq> i) (tasks st)
       \<and> deleteTask_resume i r st = st\<lparr> tasks := tasks (deleteTask_resume i r st) \<rparr>
       \<and> (distinct (map task_id (tasks st)) \<longrightarrow>
            (\<forall>n<length (tasks st). task_id (tasks st ! n) = i \<longrightarrow>
               tasks (toggleTask_resume i b r st)
                 = (tasks st)[n := (tasks st ! n)\<lparr> is_completed := \<not> b \<rparr>]
             \<and> tasks (deleteTask_resume i r st)
                 = take n (tasks st) @ drop (Suc n) (tasks st)))
       \<and> (session st \<noteq> None \<and> distinct (map task_id (tasks st)) \<longrightarrow>
            (\<forall>n<length (tasks st).
               run [ClickToggle n, Resolve (length (inflight st)) (Ack r)] st
                 = Some (st\<lparr> tasks := (tasks st)[n := (tasks st ! n)
                            \<lparr> is_completed := \<not> is_completed (tasks st ! n) \<rparr>] \<rparr>)
             \<and> run [ClickDelete n, Resolve (length (inflight st)) (Ack r)] st
                 = Some (st\<lparr> tasks := take n (tasks st) @ drop (Suc n) (tasks st) \<rparr>)))"
proof -
  have T: "tasks (toggleTask_resume i b r st)
             = map (\<lambda>t. if task_id t = i then t\<lparr> is_completed := \<not> b \<rparr> else t) (tasks st)"
    for i b
    using assms by (simp add: toggleTask_resume_def)
  have D: "tasks (deleteTask_resume i r st) = filter (\<lambda>t. task_id t \<noteq> i) (tasks st)" for i
    using assms by (simp add: deleteTask_resume_def)
  have c3: "toggleTask_resume i b r st = st\<lparr> tasks := tasks (toggleTask_resume i b r st) \<rparr>"
    for i b
    using assms by (simp add: toggleTask_resume_def)
  have c5: "deleteTask_resume i r st = st\<lparr> tasks := tasks (deleteTask_resume i r st) \<rparr>" for i
    using assms by (simp add: deleteTask_resume_def)
  have p1: "toggleTask i b st = send (UpdateTask i (\<not> b)) (ToggleTaskK i b) st" for i b
    by (simp add: toggleTask_def)
  have p3: "deleteTask i st = send (DeleteTask i) (DeleteTaskK i) st" for i
    by (simp add: deleteTask_def)
  have p2: "run [Resolve (length (inflight st)) (Ack r)] (toggleTask i b st)
           = Some (st\<lparr> tasks :=
                     map (\<lambda>t. if task_id t = i then t\<lparr> is_completed := \<not> b \<rparr> else t)
                       (tasks st) \<rparr>)" for i b
    unfolding p1 resolve_sent using c3 [of i b] by (simp add: T)
  have p4: "run [Resolve (length (inflight st)) (Ack r)] (deleteTask i st)
           = Some (st\<lparr> tasks := filter (\<lambda>t. task_id t \<noteq> i) (tasks st) \<rparr>)" for i
    unfolding p3 resolve_sent using c5 [of i] by (simp add: D)
  have c1: "length (tasks (toggleTask_resume i b r st)) = length (tasks st)"
    by (simp add: T)
  have c2: "\<forall>n<length (tasks st).
            tasks (toggleTask_resume i b r st) ! n =
              (if task_id (tasks st ! n) = i then (tasks st ! n)\<lparr> is_completed := \<not> b \<rparr>
               else tasks st ! n)"
    by (simp add: T)
  have c6: "distinct (map task_id (tasks st)) \<longrightarrow>
            (\<forall>n<length (tasks st). task_id (tasks st ! n) = i \<longrightarrow>
               tasks (toggleTask_resume i b r st)
                 = (tasks st)[n := (tasks st ! n)\<lparr> is_completed := \<not> b \<rparr>]
             \<and> tasks (deleteTask_resume i r st)
                 = take n (tasks st) @ drop (Suc n) (tasks st))"
    unfolding T D
    using map_flag_distinct [of "tasks st" _ i "\<lambda>t. t\<lparr> is_completed := \<not> b \<rparr>"]
      filter_id_distinct [of "tasks st" _ i]
    by blast
  have c7: "run [ClickToggle n, Resolve (length (inflight st)) (Ack r)] st
              = Some (st\<lparr> tasks := (tasks st)[n := (tasks st ! n)
                         \<lparr> is_completed := \<not> is_completed (tasks st ! n) \<rparr>] \<rparr>)
          \<and> run [ClickDelete n, Resolve (length (inflight st)) (Ack r)] st
              = Some (st\<lparr> tasks := take n (tasks st) @ drop (Suc n) (tasks st) \<rparr>)"
    if s: "session st \<noteq> None" and d: "distinct (map task_id (tasks st))"
      and n: "n < length (tasks st)" for n
  proof -
    let ?t = "tasks st ! n"
    have "run [ClickToggle n, Resolve (length (inflight st)) (Ack r)] st
            = run [Resolve (length (inflight st)) (Ack r)]
                (toggleTask (task_id ?t) (is_completed ?t) st)"
      using s n by simp
    also have "\<dots> = Some (st\<lparr> tasks :=
                     map (\<lambda>t. if task_id t = task_id ?t
                               then t\<lparr> is_completed := \<not> is_completed ?t \<rparr> else t)
                       (tasks st) \<rparr>)"
      by (rule p2)
    finally have tog: "run [ClickToggle n, Resolve (length (inflight st)) (Ack r)] st
              = Some (st\<lparr> tasks := (tasks st)[n := ?t\<lparr> is_completed := \<not> is_completed ?t \<rparr>] \<rparr>)"
      using map_flag_distinct [OF d n refl, of "\<lambda>t. t\<lparr> is_completed := \<not> is_completed ?t \<rparr>"]
      by simp
    have "run [ClickDelete n, Resolve (length (inflight st)) (Ack r)] st
            = run [Resolve (length (inflight st)) (Ack r)] (deleteTask (task_id ?t) st)"
      using s n by simp
    also have "\<dots> = Some (st\<lparr> tasks := filter (\<lambda>t. task_id t \<noteq> task_id ?t) (tasks st) \<rparr>)"
      by (rule p4)
    finally have del: "run [ClickDelete n, Resolve (length (inflight st)) (Ack r)] st
              = Some (st\<lparr> tasks := take n (tasks st) @ drop (Suc n) (tasks st) \<rparr>)"
      using filter_id_distinct [OF d n refl] by simp
    from tog del show ?thesis by blast
  qed
  from p1 p2 p3 p4 c1 c2 c3 D c5 c6 c7 show ?thesis by blast
qed

theorem toggle_delete_frame_witness:
  "error (ok :: unit response) = None
   \<and> session (init\<lparr> session := Some alice, tasks := [alice_task2, bob_task, alice_task] \<rparr>) \<noteq> None
   \<and> run [ClickToggle 1, Resolve 0 (Ack ok)]
        (init\<lparr> session := Some alice, tasks := [alice_task2, bob_task, alice_task] \<rparr>)
       = Some (init\<lparr> session := Some alice,
                     tasks := [alice_task2, bob_task\<lparr> is_completed := True \<rparr>, alice_task] \<rparr>)
   \<and> run [ClickDelete 1, Resolve 0 (Ack ok)]
        (init\<lparr> session := Some alice, tasks := [alice_task2, bob_task, alice_task] \<rparr>)
       = Some (init\<lparr> session := Some alice, tasks := [alice_task2, alice_task] \<rparr>)
   \<and> tasks (toggleTask_resume 2 False ok
        (init\<lparr> session := Some alice, tasks := [alice_task2, bob_task, alice_task] \<rparr>))
       = [alice_task2, bob_task\<lparr> is_completed := True \<rparr>, alice_task]
   \<and> tasks (deleteTask_resume 2 ok
        (init\<lparr> session := Some alice, tasks := [alice_task2, bob_task, alice_task] \<rparr>))
       = [alice_task2, alice_task]"
proof -
  let ?st = "init\<lparr> session := Some alice, tasks := [alice_task2, bob_task, alice_task] \<rparr>"
  have h: "error (ok :: unit response) = None"
    by (simp add: ok_def)
  have s: "session ?st \<noteq> None"
    by (simp add: init_def)
  have t: "tasks ?st = [alice_task2, bob_task, alice_task]"
    by (simp add: init_def)
  have l: "length (inflight ?st) = 0"
    by (simp add: init_def)
  have d: "distinct (map task_id (tasks ?st))"
    unfolding t by (simp add: alice_task_def alice_task2_def bob_task_def)
  have n: "(1::nat) < length (tasks ?st)" and i: "task_id (tasks ?st ! 1) = 2"
    and f: "is_completed (tasks ?st ! 1) = False"
    unfolding t by (simp_all add: bob_task_def)
  note main = toggle_delete_frame [OF h, of 2 False ?st]
  from main d n i
  have frame: "tasks (toggleTask_resume 2 False ok ?st)
          = (tasks ?st)[1 := (tasks ?st ! 1)\<lparr> is_completed := \<not> False \<rparr>]
      \<and> tasks (deleteTask_resume 2 ok ?st) = take 1 (tasks ?st) @ drop (Suc 1) (tasks ?st)"
    by blast
  from main s d n
  have clicks: "run [ClickToggle 1, Resolve (length (inflight ?st)) (Ack ok)] ?st
          = Some (?st\<lparr> tasks := (tasks ?st)[1 := (tasks ?st ! 1)
                     \<lparr> is_completed := \<not> is_completed (tasks ?st ! 1) \<rparr>] \<rparr>)
      \<and> run [ClickDelete 1, Resolve (length (inflight ?st)) (Ack ok)] ?st
          = Some (?st\<lparr> tasks := take 1 (tasks ?st) @ drop (Suc 1) (tasks ?st) \<rparr>)"
    by blast
  have e0: "(tasks ?st)[1 := (tasks ?st ! 1)\<lparr> is_completed := \<not> False \<rparr>]
              = [alice_task2, bob_task\<lparr> is_completed := True \<rparr>, alice_task]"
    unfolding t by simp
  have e1: "(tasks ?st)[1 := (tasks ?st ! 1)\<lparr> is_completed := \<not> is_completed (tasks ?st ! 1) \<rparr>]
              = [alice_task2, bob_task\<lparr> is_completed := True \<rparr>, alice_task]"
    unfolding f e0 ..
  have e2: "take 1 (tasks ?st) @ drop (Suc 1) (tasks ?st) = [alice_task2, alice_task]"
    unfolding t by simp
  have u1: "?st\<lparr> tasks := [alice_task2, bob_task\<lparr> is_completed := True \<rparr>, alice_task] \<rparr>
              = init\<lparr> session := Some alice,
                     tasks := [alice_task2, bob_task\<lparr> is_completed := True \<rparr>, alice_task] \<rparr>"
    and u2: "?st\<lparr> tasks := [alice_task2, alice_task] \<rparr>
              = init\<lparr> session := Some alice, tasks := [alice_task2, alice_task] \<rparr>"
    by simp_all
  note frame' = frame [unfolded e0 e2]
  note clicks' = clicks [unfolded l e1 e2 u1 u2]
  from h s frame' clicks' show ?thesis
    by blast
qed

text \<open>
  Claim C2. Take the record at position \<open>n\<close> of the list, with identifier \<open>id\<close> and
  completion value \<open>b\<close>. \<open>toggleTask\<close> is called on it as the list item does, with
  the identifier and the flag the list shows, and succeeds; it is then called on the
  same item again, now showing \<open>\<not> b\<close>, and succeeds. The two calls ask the store for
  \<open>\<not> b\<close> and then for \<open>b\<close>, and the record at position \<open>n\<close> is the original one
  again, with completion value \<open>b\<close>. When identifiers are distinct the whole list is as
  it was.
\<close>

theorem toggleTask_twice_restores:
  assumes "n < length (tasks st)" and "error r1 = None" and "error r2 = None"
  shows "let t = tasks st ! n;
             st1 = toggleTask_resume (task_id t) (is_completed t) r1
                     (toggleTask (task_id t) (is_completed t) st);
             t1 = tasks st1 ! n;
             st2 = toggleTask_resume (task_id t1) (is_completed t1) r2
                     (toggleTask (task_id t1) (is_completed t1) st1)
         in t1 = t\<lparr> is_completed := \<not> is_completed t \<rparr>
          \<and> tasks st2 ! n = t
          \<and> is_completed (tasks st2 ! n) = is_completed t
          \<and> map snd (inflight st2) = map snd (inflight st) @
               [ToggleTaskK (task_id t) (is_completed t), ToggleTaskK (task_id t) (\<not> is_completed t)]
          \<and> map fst (inflight st2) = map fst (inflight st) @
               [UpdateTask (task_id t) (\<not> is_completed t), UpdateTask (task_id t) (is_completed t)]
          \<and> (distinct (map task_id (tasks st)) \<longrightarrow> tasks st2 = tasks st)"
proof -
  define t where "t = tasks st ! n"
  define st1 where "st1 = toggleTask_resume (task_id t) (is_completed t) r1
                     (toggleTask (task_id t) (is_completed t) st)"
  define t1 where "t1 = tasks st1 ! n"
  define st2 where "st2 = toggleTask_resume (task_id t1) (is_completed t1) r2
                     (toggleTask (task_id t1) (is_completed t1) st1)"
  have T1: "tasks st1 = map (\<lambda>x. if task_id x = task_id t then x\<lparr> is_completed := \<not> is_completed t \<rparr> else x) (tasks st)"
    using assms(2) by (simp add: st1_def toggleTask_resume_def toggleTask_def send_def)
  have a: "t1 = t\<lparr> is_completed := \<not> is_completed t \<rparr>"
    using assms(1) by (simp add: t1_def T1 t_def)
  then have id1: "task_id t1 = task_id t" and fl1: "is_completed t1 = (\<not> is_completed t)"
    by simp_all
  have T2: "tasks st2 = map (\<lambda>x. if task_id x = task_id t then x\<lparr> is_completed := is_completed t \<rparr> else x) (tasks st1)"
    using assms(3) by (simp add: st2_def toggleTask_resume_def toggleTask_def send_def id1 fl1)
  have len1: "n < length (tasks st1)"
    using assms(1) by (simp add: T1)
  have "tasks st2 ! n = t1\<lparr> is_completed := is_completed t \<rparr>"
    using len1 by (simp add: T2 id1 t1_def [symmetric])
  then have b: "tasks st2 ! n = t"
    by (simp add: a)
  have I1: "inflight st1 = inflight st @ [(UpdateTask (task_id t) (\<not> is_completed t), ToggleTaskK (task_id t) (is_completed t))]"
    using assms(2) by (simp add: st1_def toggleTask_resume_def toggleTask_def send_def)
  have I2: "inflight st2 = inflight st1 @ [(UpdateTask (task_id t) (is_completed t), ToggleTaskK (task_id t) (\<not> is_completed t))]"
    using assms(3) by (simp add: st2_def toggleTask_resume_def toggleTask_def send_def id1 fl1)
  have c: "map snd (inflight st2) = map snd (inflight st) @
               [ToggleTaskK (task_id t) (is_completed t), ToggleTaskK (task_id t) (\<not> is_completed t)]"
    by (simp add: I1 I2)
  have d: "map fst (inflight st2) = map fst (inflight st) @
               [UpdateTask (task_id t) (\<not> is_completed t), UpdateTask (task_id t) (is_completed t)]"
    by (simp add: I1 I2)
  have e: "tasks st2 = tasks st" if dist: "distinct (map task_id (tasks st))"
  proof -
    let ?f = "\<lambda>x. if task_id x = task_id t then x\<lparr> is_completed := \<not> is_completed t \<rparr> else x"
    let ?g = "\<lambda>x. if task_id x = task_id t then x\<lparr> is_completed := is_completed t \<rparr> else x"
    have inj: "inj_on task_id (set (tasks st))"
      using dist by (simp add: distinct_map)
    have tin: "t \<in> set (tasks st)"
      using assms(1) by (simp add: t_def)
    have restore: "?g (?f x) = x" if x: "x \<in> set (tasks st)" for x
    proof (cases "task_id x = task_id t")
      case True
      have "x = t" by (rule inj_onD [OF inj True x tin])
      then show ?thesis by simp
    next
      case False
      then show ?thesis by simp
    qed
    have "tasks st2 = map (\<lambda>x. ?g (?f x)) (tasks st)"
      unfolding T2 T1 by (simp only: map_map o_def)
    also have "\<dots> = tasks st"
      using restore by (intro map_idI)
    finally show ?thesis .
  qed
  from a b c d e show ?thesis
    unfolding Let_def t_def [symmetric] st1_def [symmetric] t1_def [symmetric] st2_def [symmetric]
    by simp
qed

theorem toggleTask_twice_restores_witness:
  "(1::nat) < length (tasks (init\<lparr> session := Some alice, tasks := [alice_task2, alice_task] \<rparr>))
   \<and> error (ok :: unit response) = None
   \<and> tasks (toggleTask_resume 1 False ok
        (toggleTask 1 False (init\<lparr> session := Some alice, tasks := [alice_task2, alice_task] \<rparr>)))
       = [alice_task2, alice_task\<lparr> is_completed := True \<rparr>]
   \<and> tasks (toggleTask_resume 1 True ok (toggleTask 1 True
        (toggleTask_resume 1 False ok
          (toggleTask 1 False (init\<lparr> session := Some alice, tasks := [alice_task2, alice_task] \<rparr>)))))
       = [alice_task2, alice_task]"
proof -
  let ?st = "init\<lparr> session := Some alice, tasks := [alice_task2, alice_task] \<rparr>"
  have h: "error (ok :: unit response) = None"
    by (simp add: ok_def)
  have t: "tasks ?st = [alice_task2, alice_task]"
    by (simp add: init_def)
  have n: "(1::nat) < length (tasks ?st)"
    unfolding t by simp
  have d: "distinct (map task_id (tasks ?st))"
    unfolding t by (simp add: alice_task_def alice_task2_def)
  have one: "tasks (toggleTask_resume 1 False ok (toggleTask 1 False ?st))
               = [alice_task2, alice_task\<lparr> is_completed := True \<rparr>]"
    using h by (simp add: toggleTask_resume_def toggleTask_def send_def init_def
        alice_task_def alice_task2_def)
  have f: "task_id (tasks ?st ! 1) = 1" "is_completed (tasks ?st ! 1) = False"
    unfolding t by (simp_all add: alice_task_def)
  from toggleTask_twice_restores [OF n h h] d
  have "tasks (toggleTask_resume 1 True ok (toggleTask 1 True
          (toggleTask_resume 1 False ok (toggleTask 1 False ?st)))) = tasks ?st"
    unfolding Let_def f one by (simp add: alice_task_def)
  with n h one t show ?thesis by simp
qed

text \<open>
  The second call has to carry the flag the list shows by then. \<open>toggleTask(id, b)\<close>
  called again with the same \<open>b\<close> asks for \<open>\<not> b\<close> once more, and the record keeps
  \<open>\<not> b\<close>.
\<close>

lemma toggleTask_same_argument_twice:
  assumes "n < length (tasks st)" and "task_id (tasks st ! n) = i"
    and "error r1 = None" and "error r2 = None"
  shows "is_completed
           (tasks (toggleTask_resume i b r2 (toggleTask i b
                     (toggleTask_resume i b r1 (toggleTask i b st)))) ! n) = (\<not> b)"
  using assms by (simp add: toggleTask_resume_def toggleTask_def send_def)

section \<open>Listing the tasks of a user\<close>

text \<open>
  Claim C4. \<open>fetchTasks(userId)\<close> asks the store for the rows of \<open>userId\<close>, newest
  first, and on success installs the answer as it is. With the store's answer to that
  query, every task of the resulting list is a row of the table owned by \<open>userId\<close>, and
  the list is ordered by \<open>created_at\<close>, descending.
\<close>

theorem listTasks_owner_and_order:
  "filter (\<lambda>t. user_id t = userId)
       (tasks (fetchTasks_resume (store_select table userId) (fetchTasks userId st)))
     = tasks (fetchTasks_resume (store_select table userId) (fetchTasks userId st))
   \<and> (\<forall>t\<in>set (tasks (fetchTasks_resume (store_select table userId) (fetchTasks userId st))).
        user_id t = userId \<and> t \<in> set table)
   \<and> sorted_wrt (\<lambda>a b. created_at b \<le> created_at a)
        (tasks (fetchTasks_resume (store_select table userId) (fetchTasks userId st)))
   \<and> fst (last (inflight (fetchTasks userId st))) = SelectTasks userId"
proof -
  let ?rows = "filter (\<lambda>t. user_id t = userId) table"
  have T: "tasks (fetchTasks_resume (store_select table userId) (fetchTasks userId st))
             = rev (sort_key created_at ?rows)"
    by (simp add: fetchTasks_resume_def store_select_def)
  have own: "\<forall>t\<in>set (rev (sort_key created_at ?rows)). user_id t = userId \<and> t \<in> set table"
    by simp
  have "sorted (map created_at (sort_key created_at ?rows))"
    by (rule sorted_sort_key)
  then have "sorted_wrt (\<lambda>a b. created_at a \<le> created_at b) (sort_key created_at ?rows)"
    by (simp add: sorted_map)
  then have ord: "sorted_wrt (\<lambda>a b. created_at b \<le> created_at a) (rev (sort_key created_at ?rows))"
    by (simp add: sorted_wrt_rev)
  have f: "filter (\<lambda>t. user_id t = userId) (rev (sort_key created_at ?rows))
             = rev (sort_key created_at ?rows)"
    unfolding filter_id_conv using own by blast
  have q: "fst (last (inflight (fetchTasks userId st))) = SelectTasks userId"
    by (simp add: fetchTasks_def send_def)
  from own ord f q show ?thesis unfolding T by blast
qed

theorem listTasks_owner_and_order_witness:
  "tasks (fetchTasks_resume (store_select [alice_task, bob_task, alice_task2] (js_str ''user-a''))
            (fetchTasks (js_str ''user-a'') (init\<lparr> session := Some alice \<rparr>)))
     = [alice_task2, alice_task]
   \<and> list_all (\<lambda>t. user_id t = js_str ''user-a'')
        (tasks (fetchTasks_resume (store_select [alice_task, bob_task, alice_task2] (js_str ''user-a''))
            (fetchTasks (js_str ''user-a'') (init\<lparr> session := Some alice \<rparr>))))
   \<and> map created_at [alice_task2, alice_task] = [300, 100]"
proof -
  let ?u = "js_str ''user-a''"
  let ?st' = "fetchTasks_resume (store_select [alice_task, bob_task, alice_task2] ?u)
                (fetchTasks ?u (init\<lparr> session := Some alice \<rparr>))"
  have ne: "js_str ''user-b'' \<noteq> js_str ''user-a''"
    by (simp add: js_str_def)
  have t: "tasks ?st' = [alice_task2, alice_task]"
    using ne by (simp add: fetchTasks_resume_def store_select_def alice_task_def
        alice_task2_def bob_task_def)
  from listTasks_owner_and_order [of ?u "[alice_task, bob_task, alice_task2]"
      "init\<lparr> session := Some alice \<rparr>"]
  have "\<forall>t\<in>set (tasks ?st'). user_id t = ?u"
    by blast
  then have "list_all (\<lambda>t. user_id t = ?u) (tasks ?st')"
    by (simp add: list_all_iff)
  with t show ?thesis
    by (simp add: alice_task_def alice_task2_def)
qed

section \<open>Signing in by email\<close>

text \<open>
  Claim C9. \<open>signInWithEmail\<close> asks the provider to send a link to the address typed.
  When the provider answers without error the continuation sets \<open>otpSent\<close> and changes
  nothing else; when it answers with an error the continuation writes the error with
  \<open>console.error\<close> and changes nothing else, so \<open>otpSent\<close> is not set by it. From a
  state in which no link was announced yet, \<open>otpSent\<close> holds afterwards exactly when
  the provider call succeeded. The session is the same before and after.
\<close>

theorem signInWithEmail_link_sent_iff_success:
  "session (signInWithEmail_resume r (signInWithEmail st)) = session st
   \<and> fst (last (inflight (signInWithEmail st))) = SignInWithOtp (email st)
   \<and> (case error r of
        None \<Rightarrow> signInWithEmail_resume r st = st\<lparr> otpSent := True \<rparr>
      | Some e \<Rightarrow> signInWithEmail_resume r st
                   = st\<lparr> console := console st @ [(''Error sending magic link:'', e)] \<rparr>)
   \<and> (\<not> otpSent st \<longrightarrow> (otpSent (signInWithEmail_resume r (signInWithEmail st)) \<longleftrightarrow> error r = None))"
  by (simp add: signInWithEmail_resume_def signInWithEmail_def send_def console_error_def
      split: option.splits)

theorem signInWithEmail_link_sent_iff_success_witness:
  "\<not> otpSent (init\<lparr> email := js_str ''a@x.com'' \<rparr>)
   \<and> otpSent (signInWithEmail_resume ok (signInWithEmail (init\<lparr> email := js_str ''a@x.com'' \<rparr>)))
   \<and> \<not> otpSent (signInWithEmail_resume failed (signInWithEmail (init\<lparr> email := js_str ''a@x.com'' \<rparr>)))
   \<and> session (signInWithEmail_resume ok (signInWithEmail (init\<lparr> email := js_str ''a@x.com'' \<rparr>)))
       = None"
proof -
  let ?st = "init\<lparr> email := js_str ''a@x.com'' \<rparr>"
  have h: "\<not> otpSent ?st" and s: "session ?st = None"
    by (simp_all add: init_def)
  have e: "error (ok :: unit response) = None" "error (failed :: unit response) \<noteq> None"
    by (simp_all add: ok_def failed_def)
  from signInWithEmail_link_sent_iff_success [of ok ?st]
    signInWithEmail_link_sent_iff_success [of failed ?st] h s e
  show ?thesis by simp
qed

section \<open>Changes of session\<close>

text \<open>
  Claim C1 as stated does not hold. The provider announces user A, then user B; B's
  fetch is answered, and then A's: the list of B's session holds A's tasks.
\<close>

theorem stale_fetch_overwrites_counterexample:
  "run [AuthStateChange (Some alice), AuthStateChange (Some bob),
        Resolve 1 (Rows \<lparr> data = Some [bob_task], error = None \<rparr>)] init
     = Some (init\<lparr> session := Some bob, tasks := [bob_task],
                     inflight := [(SelectTasks (js_str ''user-a''), FetchTasksK)] \<rparr>)
   \<and> run [AuthStateChange (Some alice), AuthStateChange (Some bob),
          Resolve 1 (Rows \<lparr> data = Some [bob_task], error = None \<rparr>),
          Resolve 0 (Rows \<lparr> data = Some [alice_task2, alice_task], error = None \<rparr>)] init
     = Some (init\<lparr> session := Some bob, tasks := [alice_task2, alice_task] \<rparr>)
   \<and> session_user_id (Some bob) = Some (js_str ''user-b'')
   \<and> map user_id [alice_task2, alice_task] = [js_str ''user-a'', js_str ''user-a'']
   \<and> js_str ''user-a'' \<noteq> js_str ''user-b''"
  by (simp add: app_defs example_defs)

text \<open>
  Claim C1, as the component has it. The session changes to A, whose fetch is sent, and
  then to \<open>s'\<close> (another session, or none) while that fetch is pending. When the
  fetch for A is answered it is applied like any other: the session stays \<open>s'\<close>; on
  success the list becomes the rows returned for A (empty when \<open>data\<close> is \<open>null\<close>) and
  nothing is logged; on error the list stays as the change of session left it, and the
  error is written with \<open>console.error\<close>.
\<close>

theorem stale_fetch_is_applied:
  assumes "session_user_id (Some sA) = Some a" and "a \<noteq> []"
    and "\<not> object_is (Some sA) (session st)" and "\<not> object_is s' (Some sA)"
  shows "map_option session
           (run [AuthStateChange (Some sA), AuthStateChange s',
                 Resolve (length (inflight st)) (Rows r)] st) = Some s'
       \<and> map_option tasks
           (run [AuthStateChange (Some sA), AuthStateChange s',
                 Resolve (length (inflight st)) (Rows r)] st)
         = Some (case error r of
                   None \<Rightarrow> (case data r of None \<Rightarrow> [] | Some d \<Rightarrow> d)
                 | Some e \<Rightarrow> if truthy (session_user_id s') then tasks st else [])
       \<and> map_option console
           (run [AuthStateChange (Some sA), AuthStateChange s',
                 Resolve (length (inflight st)) (Rows r)] st)
         = Some (case error r of
                   None \<Rightarrow> console st
                 | Some e \<Rightarrow> console st @ [(''Fetch tasks error:'', e)])"
proof -
  have s1: "setSession (Some sA) st = send (SelectTasks a) FetchTasksK (st\<lparr> session := Some sA \<rparr>)"
    using assms(1,2,3) by (simp add: setSession_def session_effect_def truthy_def fetchTasks_def)
  let ?st1 = "send (SelectTasks a) FetchTasksK (st\<lparr> session := Some sA \<rparr>)"
  let ?st2 = "setSession s' ?st1"
  have changed: "\<not> object_is s' (session ?st1)"
    using assms(4) by (simp add: send_def)
  have st2: "?st2 = session_effect (?st1\<lparr> session := s' \<rparr>)"
    using changed by (simp add: setSession_def)
  have sess2: "session ?st2 = s'"
    unfolding st2
    by (simp add: session_effect_def fetchTasks_def send_def split: option.splits)
  have tasks2: "tasks ?st2 = (if truthy (session_user_id s') then tasks st else [])"
    unfolding st2
    by (simp add: session_effect_def fetchTasks_def send_def truthy_def split: option.splits)
  have cons2: "console ?st2 = console st"
    unfolding st2
    by (simp add: session_effect_def fetchTasks_def send_def split: option.splits)
  have len2: "length (inflight st) < length (inflight ?st2)"
    unfolding st2
    by (simp add: session_effect_def fetchTasks_def send_def split: option.splits)
  have nth2: "inflight ?st2 ! length (inflight st) = (SelectTasks a, FetchTasksK)"
    unfolding st2
    by (simp add: session_effect_def fetchTasks_def send_def nth_append split: option.splits)
  have r: "run [AuthStateChange (Some sA), AuthStateChange s',
                 Resolve (length (inflight st)) (Rows r)] st
           = Some (fetchTasks_resume r (take_inflight (length (inflight st)) ?st2))"
    using len2 nth2 by (simp add: s1)
  show ?thesis
    unfolding r using sess2 tasks2 cons2
    by (simp add: fetchTasks_resume_def take_inflight_def console_error_def split: option.splits)
qed

theorem stale_fetch_is_applied_witness:
  "session_user_id (Some alice) = Some (js_str ''user-a'') \<and> js_str ''user-a'' \<noteq> []
   \<and> \<not> object_is (Some alice) (session init) \<and> \<not> object_is (Some bob) (Some alice)
   \<and> map_option session
        (run [AuthStateChange (Some alice), AuthStateChange (Some bob),
              Resolve 0 (Rows \<lparr> data = Some [alice_task], error = None \<rparr>)] init)
       = Some (Some bob)
   \<and> map_option tasks
        (run [AuthStateChange (Some alice), AuthStateChange (Some bob),
              Resolve 0 (Rows \<lparr> data = Some [alice_task], error = None \<rparr>)] init)
       = Some [alice_task]
   \<and> map_option tasks
        (run [AuthStateChange (Some alice), AuthStateChange (Some bob), Resolve 0 (Rows failed)]
           init)
       = Some []
   \<and> map_option console
        (run [AuthStateChange (Some alice), AuthStateChange (Some bob), Resolve 0 (Rows failed)]
           init)
       = Some [(''Fetch tasks error:'', ''network'')]"
proof -
  have h1: "session_user_id (Some alice) = Some (js_str ''user-a'')"
    by (simp add: session_user_id_def alice_def)
  have h2: "js_str ''user-a'' \<noteq> []"
    by (simp add: js_str_def)
  have h3: "\<not> object_is (Some alice) (session init)"
    by (simp add: object_is_def init_def)
  have h4: "\<not> object_is (Some bob) (Some alice)"
    by (simp add: object_is_def alice_def bob_def)
  have l: "length (inflight init) = 0" and t: "tasks init = []" and c: "console init = []"
    by (simp_all add: init_def)
  have b: "truthy (session_user_id (Some bob))"
    by (simp add: truthy_def session_user_id_def bob_def js_str_def)
  have e: "error (failed :: task list response) = Some ''network''"
    by (simp add: failed_def)
  from stale_fetch_is_applied [OF h1 h2 h3 h4, of "\<lparr> data = Some [alice_task], error = None \<rparr>"]
    stale_fetch_is_applied [OF h1 h2 h3 h4, of failed]
    h1 h2 h3 h4
  show ?thesis
    unfolding l t c by (simp add: b e)
qed

text \<open>
  A value that is the stored one again is no change of session: nothing happens, and
  in particular no fetch is sent.
\<close>

lemma setSession_same_object:
  assumes "object_is s (session st)"
  shows "setSession s st = st"
  using assms by (simp add: setSession_def)

text \<open>
  Claim C8 as stated does not hold. First, the list is not replaced when the session
  changes to another user: user A's list is loaded, the provider announces user B, and
  the list still holds A's task while B's fetch is pending and after it has failed.
  Second, the provider announces user A and then the end of the session, and A's fetch
  is answered afterwards: there is no session, and the list holds A's task.
\<close>

theorem session_change_not_wholesale_counterexample:
  "run [AuthStateChange (Some alice),
        Resolve 0 (Rows \<lparr> data = Some [alice_task], error = None \<rparr>),
        AuthStateChange (Some bob)] init
     = Some (init\<lparr> session := Some bob, tasks := [alice_task],
                     inflight := [(SelectTasks (js_str ''user-b''), FetchTasksK)] \<rparr>)
   \<and> run [AuthStateChange (Some alice),
          Resolve 0 (Rows \<lparr> data = Some [alice_task], error = None \<rparr>),
          AuthStateChange (Some bob), Resolve 0 (Rows failed)] init
     = Some (init\<lparr> session := Some bob, tasks := [alice_task],
                     console := [(''Fetch tasks error:'', ''network'')] \<rparr>)
   \<and> session_user_id (Some bob) = Some (js_str ''user-b'')
   \<and> user_id alice_task = js_str ''user-a''
   \<and> js_str ''user-a'' \<noteq> js_str ''user-b''
   \<and> run [AuthStateChange (Some alice), AuthStateChange None,
          Resolve 0 (Rows \<lparr> data = Some [alice_task], error = None \<rparr>)] init
     = Some (init\<lparr> tasks := [alice_task] \<rparr>)
   \<and> session (init\<lparr> tasks := [alice_task] \<rparr>) = None
   \<and> tasks (init\<lparr> tasks := [alice_task] \<rparr>) \<noteq> []"
  by (simp add: app_defs example_defs)

text \<open>
  Claim C8, as the component has it. When the session changes, that is when the value
  announced is not the one stored, the new session is stored and the effect runs. If
  the new session carries a user identifier, one fetch for that user is sent and the
  list is left as it is; when that fetch is answered with success the whole list is
  replaced by the rows returned (empty when \<open>data\<close> is \<open>null\<close>), whatever state \<open>st1\<close>
  the answer meets, and when it is answered with an error the list is the one from
  before the change. If the new session carries no user identifier (signed out), the
  list is set to empty with the change.
\<close>

theorem session_change_refetches_or_clears:
  assumes "\<not> object_is s (session st)"
  shows "session (setSession s st) = s
       \<and> (truthy (session_user_id s) \<longrightarrow>
            (\<exists>u. session_user_id s = Some u
               \<and> setSession s st = send (SelectTasks u) FetchTasksK (st\<lparr> session := s \<rparr>))
            \<and> tasks (setSession s st) = tasks st
            \<and> map_option tasks
                 (run [AuthStateChange s, Resolve (length (inflight st)) (Rows r)] st)
               = Some (case error r of
                         None \<Rightarrow> (case data r of None \<Rightarrow> [] | Some d \<Rightarrow> d)
                       | Some e \<Rightarrow> tasks st))
       \<and> (error r = None \<longrightarrow>
            tasks (fetchTasks_resume r st1) = (case data r of None \<Rightarrow> [] | Some d \<Rightarrow> d))
       \<and> (\<not> truthy (session_user_id s) \<longrightarrow> setSession s st = st\<lparr> session := s, tasks := [] \<rparr>)"
proof -
  have eff: "setSession s st = session_effect (st\<lparr> session := s \<rparr>)"
    using assms by (simp add: setSession_def)
  have c1: "session (setSession s st) = s"
    unfolding eff
    by (simp add: session_effect_def fetchTasks_def send_def split: option.splits)
  have c2: "(\<exists>u. session_user_id s = Some u
               \<and> setSession s st = send (SelectTasks u) FetchTasksK (st\<lparr> session := s \<rparr>))
            \<and> tasks (setSession s st) = tasks st
            \<and> map_option tasks
                 (run [AuthStateChange s, Resolve (length (inflight st)) (Rows r)] st)
               = Some (case error r of
                         None \<Rightarrow> (case data r of None \<Rightarrow> [] | Some d \<Rightarrow> d)
                       | Some e \<Rightarrow> tasks st)"
    if tr: "truthy (session_user_id s)"
  proof -
    from tr obtain u where u: "session_user_id s = Some u" "u \<noteq> []"
      by (auto simp: truthy_def split: option.splits)
    have sent: "setSession s st = send (SelectTasks u) FetchTasksK (st\<lparr> session := s \<rparr>)"
      unfolding eff using u by (simp add: session_effect_def truthy_def fetchTasks_def)
    have same: "tasks (setSession s st) = tasks st"
      unfolding sent by (simp add: send_def)
    have "run [AuthStateChange s, Resolve (length (inflight st)) (Rows r)] st
            = run [Resolve (length (inflight (st\<lparr> session := s \<rparr>))) (Rows r)]
                (send (SelectTasks u) FetchTasksK (st\<lparr> session := s \<rparr>))"
      by (simp add: sent)
    also have "\<dots> = Some (fetchTasks_resume r (st\<lparr> session := s \<rparr>))"
      unfolding resolve_sent by simp
    finally have "map_option tasks
                 (run [AuthStateChange s, Resolve (length (inflight st)) (Rows r)] st)
               = Some (case error r of
                         None \<Rightarrow> (case data r of None \<Rightarrow> [] | Some d \<Rightarrow> d)
                       | Some e \<Rightarrow> tasks st)"
      by (simp add: fetchTasks_resume_def console_error_def split: option.splits)
    with u(1) sent same show ?thesis by blast
  qed
  have c3: "error r = None \<longrightarrow>
            tasks (fetchTasks_resume r st1) = (case data r of None \<Rightarrow> [] | Some d \<Rightarrow> d)"
    by (simp add: fetchTasks_resume_def)
  have c4: "\<not> truthy (session_user_id s) \<longrightarrow> setSession s st = st\<lparr> session := s, tasks := [] \<rparr>"
    unfolding eff by (simp add: session_effect_def)
  from c1 c2 c3 c4 show ?thesis by blast
qed

theorem session_change_refetches_or_clears_witness:
  "\<not> object_is None (session (init\<lparr> session := Some alice, tasks := [alice_task] \<rparr>))
   \<and> setSession None (init\<lparr> session := Some alice, tasks := [alice_task] \<rparr>) = init
   \<and> \<not> object_is (Some bob) (session (init\<lparr> session := Some alice, tasks := [alice_task] \<rparr>))
   \<and> setSession (Some bob) (init\<lparr> session := Some alice, tasks := [alice_task] \<rparr>)
       = send (SelectTasks (js_str ''user-b'')) FetchTasksK
           (init\<lparr> session := Some bob, tasks := [alice_task] \<rparr>)
   \<and> map_option tasks
        (run [AuthStateChange (Some bob),
              Resolve 0 (Rows \<lparr> data = Some [bob_task], error = None \<rparr>)]
           (init\<lparr> session := Some alice, tasks := [alice_task] \<rparr>))
       = Some [bob_task]
   \<and> map_option tasks
        (run [AuthStateChange (Some bob), Resolve 0 (Rows failed)]
           (init\<lparr> session := Some alice, tasks := [alice_task] \<rparr>))
       = Some [alice_task]"
proof -
  let ?st = "init\<lparr> session := Some alice, tasks := [alice_task] \<rparr>"
  have h0: "\<not> object_is None (session ?st)"
    by (simp add: object_is_def init_def)
  have hb: "\<not> object_is (Some bob) (session ?st)"
    by (simp add: object_is_def init_def alice_def bob_def)
  have n: "\<not> truthy (session_user_id None)"
    by (simp add: truthy_def session_user_id_def)
  have ub: "session_user_id (Some bob) = Some (js_str ''user-b'')"
    by (simp add: session_user_id_def bob_def)
  have b: "truthy (session_user_id (Some bob))"
    unfolding ub by (simp add: truthy_def js_str_def)
  have l: "length (inflight ?st) = 0" and t: "tasks ?st = [alice_task]"
    by (simp_all add: init_def)
  have e: "error (failed :: task list response) = Some ''network''"
    by (simp add: failed_def)
  from session_change_refetches_or_clears [OF h0, where r = ok] n
  have "setSession None ?st = ?st\<lparr> session := None, tasks := [] \<rparr>"
    by blast
  then have out: "setSession None ?st = init"
    by (simp add: init_def)
  note sw = session_change_refetches_or_clears [OF hb]
  from sw [where r = ok] b ub
  have "setSession (Some bob) ?st
          = send (SelectTasks (js_str ''user-b'')) FetchTasksK (?st\<lparr> session := Some bob \<rparr>)"
    by auto
  then have sent: "setSession (Some bob) ?st
          = send (SelectTasks (js_str ''user-b'')) FetchTasksK
              (init\<lparr> session := Some bob, tasks := [alice_task] \<rparr>)"
    by (simp add: init_def)
  from sw [where r = "\<lparr> data = Some [bob_task], error = None \<rparr>"] b
  have good: "map_option tasks
        (run [AuthStateChange (Some bob),
              Resolve 0 (Rows \<lparr> data = Some [bob_task], error = None \<rparr>)] ?st)
       = Some [bob_task]"
    unfolding l by simp
  from sw [where r = failed] b
  have bad: "map_option tasks
        (run [AuthStateChange (Some bob), Resolve 0 (Rows failed)] ?st) = Some [alice_task]"
    unfolding l t by (simp add: e)
  from h0 hb out sent good bad show ?thesis
    by blast
qed

end
